theory Spec2Isabelle
  imports Complex_Main "HOL-Library.Multiset"
begin

section \<open>Arrays, element types and errors\<close>

text \<open>
  The pipeline of \<^verbatim>\<open>and_lab_5.py\<close> works on two-dimensional numpy arrays. An array is
  modelled by its rows (row-major, as the code indexes it: \<^verbatim>\<open>image[y, x]\<close>) together with
  the kind of its element type: \<^verbatim>\<open>np.zeros_like\<close> in \<^verbatim>\<open>convolve\<close> copies that kind to the
  output, and storing a float into an integer array truncates it. Sample values are real
  numbers; float64 arithmetic is modelled by exact real arithmetic, and the values of an
  integer array are assumed to stay inside the range of its integer type.
\<close>

datatype error = ValueError | IndexError

datatype dtype = IntDType | FloatDType

record ndarray =
  dtype :: dtype
  cells :: "real list list"

definition height :: "'a list list \<Rightarrow> nat" where
  "height g = length g"

definition width :: "'a list list \<Rightarrow> nat" where
  "width g = (case g of [] \<Rightarrow> 0 | r # _ \<Rightarrow> length r)"

text \<open>A numpy array is rectangular: every row has the same number of cells.\<close>

definition rect :: "'a list list \<Rightarrow> nat \<Rightarrow> nat \<Rightarrow> bool" where
  "rect g H W \<longleftrightarrow> length g = H \<and> list_all (\<lambda>r. length r = W) g"

text \<open>Conversion of a float to an integer type (C cast): truncation toward zero.\<close>

definition trunc_zero :: "real \<Rightarrow> int" where
  "trunc_zero r = (if 0 \<le> r then \<lfloor>r\<rfloor> else \<lceil>r\<rceil>)"

text \<open>Writing a float64 value into a cell of an array of the given element kind.\<close>

definition store :: "dtype \<Rightarrow> real \<Rightarrow> real" where
  "store dt v = (case dt of FloatDType \<Rightarrow> v | IntDType \<Rightarrow> of_int (trunc_zero v))"

section \<open>Gaussian kernel\<close>

text \<open>
  \<^verbatim>\<open>gaussian_kernel(size, sigma)\<close>: \<^verbatim>\<open>np.fromfunction\<close> calls the lambda with the row
  index \<open>x\<close> and the column index \<open>y\<close> of each cell; the kernel is then divided by the sum
  of all its cells.
\<close>

definition gauss_cell :: "nat \<Rightarrow> real \<Rightarrow> nat \<Rightarrow> nat \<Rightarrow> real" where
  "gauss_cell sz \<sigma> x y =
     (1 / (2 * pi * \<sigma>\<^sup>2)) *
     exp (- ((real x - (real sz - 1) / 2)\<^sup>2 + (real y - (real sz - 1) / 2)\<^sup>2) / (2 * \<sigma>\<^sup>2))"

definition np_sum :: "real list list \<Rightarrow> real" where
  "np_sum g = sum_list (map sum_list g)"

definition gaussian_kernel :: "nat \<Rightarrow> real \<Rightarrow> real list list" where
  "gaussian_kernel sz \<sigma> =
     (let kernel = map (\<lambda>x. map (\<lambda>y. gauss_cell sz \<sigma> x y) [0..<sz]) [0..<sz]
      in map (map (\<lambda>v. v / np_sum kernel)) kernel)"

section \<open>Convolution\<close>

text \<open>
  \<^verbatim>\<open>np.pad(image, ((pad_h, pad_h), (pad_w, pad_w)), mode="reflect")\<close>: the padded cell at
  offset \<open>t\<close> from the first cell of an axis of length \<open>n\<close> is the cell of the original at the
  mirrored position, the edge cell not repeated; numpy repeats the reflection when the pad is
  longer than the axis (period \<open>2 * (n - 1)\<close>) and uses the edge value on an axis of length 1.
  On an empty axis numpy raises \<^verbatim>\<open>ValueError\<close> when the pad is not zero; that test is in
  \<open>convolve\<close> below.
\<close>

definition reflect_index :: "nat \<Rightarrow> int \<Rightarrow> nat" where
  "reflect_index n t =
     (if n \<le> 1 then 0
      else let p = 2 * (int n - 1); m = t mod p
           in nat (if m < int n then m else p - m))"

definition pad_reflect :: "real list list \<Rightarrow> nat \<Rightarrow> nat \<Rightarrow> real list list" where
  "pad_reflect g pad_h pad_w =
     map (\<lambda>i. map (\<lambda>j. g ! reflect_index (height g) (int i - int pad_h)
                          ! reflect_index (width g) (int j - int pad_w))
                [0..<width g + 2 * pad_w])
         [0..<height g + 2 * pad_h]"

text \<open>\<^verbatim>\<open>padded_image[i:i+kernel_height, j:j+kernel_width]\<close>\<close>

definition region :: "real list list \<Rightarrow> nat \<Rightarrow> nat \<Rightarrow> nat \<Rightarrow> nat \<Rightarrow> real list list" where
  "region padded i j kh kw = map (\<lambda>r. take kw (drop j r)) (take kh (drop i padded))"

text \<open>\<^verbatim>\<open>np.sum(region * kernel)\<close>, for a region and a kernel of the same shape.\<close>

definition dot_row :: "real list \<Rightarrow> real list \<Rightarrow> real" where
  "dot_row xs ys = sum_list (map (\<lambda>(x, y). x * y) (zip xs ys))"

definition sum_prod :: "real list list \<Rightarrow> real list list \<Rightarrow> real" where
  "sum_prod a b = sum_list (map (\<lambda>(ra, rb). dot_row ra rb) (zip a b))"

definition convolve :: "ndarray \<Rightarrow> real list list \<Rightarrow> error + ndarray" where
  "convolve img kern =
     (let image_height = height (cells img); image_width = width (cells img);
          kernel_height = height kern; kernel_width = width kern;
          pad_h = kernel_height div 2; pad_w = kernel_width div 2
      in if (image_height = 0 \<and> 0 < pad_h) \<or> (image_width = 0 \<and> 0 < pad_w)
         then Inl ValueError
         else
           let padded_image = pad_reflect (cells img) pad_h pad_w
           in Inr \<lparr> dtype = dtype img,
                    cells = map (\<lambda>i. map (\<lambda>j. store (dtype img)
                                  (sum_prod (region padded_image i j kernel_height kernel_width)
                                            kern))
                                [0..<image_width])
                            [0..<image_height] \<rparr>)"



section \<open>FAST candidate detector\<close>

text \<open>
  \<^verbatim>\<open>image.astype(np.int32)\<close>: every sample converted to an integer. The samples the
  pipeline passes are bytes, far from the bounds of a 32-bit integer, so the integers are
  unbounded here.
\<close>

definition astype_int32 :: "ndarray \<Rightarrow> int list list" where
  "astype_int32 a = map (map trunc_zero) (cells a)"

text \<open>The 16 offsets \<open>(dy, dx)\<close> of the circle of radius 3, in the order of the source.\<close>

definition bresenham_circle :: "(int \<times> int) list" where
  "bresenham_circle = [(0, -3), (1, -3), (2, -2), (3, -1),
                       (3, 0), (3, 1), (2, 2), (1, 3),
                       (0, 3), (-1, 3), (-2, 2), (-3, 1),
                       (-3, 0), (-3, -1), (-2, -2), (-1, -3)]"

text \<open>
  \<^verbatim>\<open>image[y + dy, x + dx]\<close> for a pixel \<open>(y, x)\<close> at least 3 cells away from every border,
  which is where the two loops of \<^verbatim>\<open>detect_fast\<close> run: the index is never negative and
  never out of range.
\<close>

definition pixel :: "int list list \<Rightarrow> int \<Rightarrow> int \<Rightarrow> int" where
  "pixel g y x = g ! nat y ! nat x"

text \<open>
  The loop over the four cardinal samples \<^verbatim>\<open>for idx in [0, 8, 4, 12]\<close>, with its two
  counters \<open>(brighter, darker)\<close>.
\<close>

fun cardinal_counts ::
  "int list list \<Rightarrow> int \<Rightarrow> int \<Rightarrow> int \<Rightarrow> int \<Rightarrow> nat list \<Rightarrow> nat \<times> nat \<Rightarrow> nat \<times> nat" where
  "cardinal_counts g threshold center_intensity y x [] (brighter, darker) = (brighter, darker)"
| "cardinal_counts g threshold center_intensity y x (idx # rest) (brighter, darker) =
     (let (dy, dx) = bresenham_circle ! idx;
          intensity = pixel g (y + dy) (x + dx)
      in if intensity > center_intensity + threshold
         then cardinal_counts g threshold center_intensity y x rest (brighter + 1, darker)
         else if intensity < center_intensity - threshold
         then cardinal_counts g threshold center_intensity y x rest (brighter, darker + 1)
         else cardinal_counts g threshold center_intensity y x rest (brighter, darker))"

text \<open>
  The loop over the whole circle, with its counter \<open>sequential_count\<close>: \<open>True\<close> when the
  loop reaches \<^verbatim>\<open>keypoints.append((x, y)); break\<close>, \<open>False\<close> when it runs to its end.
\<close>

fun circle_scan ::
  "int list list \<Rightarrow> int \<Rightarrow> int \<Rightarrow> int \<Rightarrow> int \<Rightarrow> (int \<times> int) list \<Rightarrow> nat \<Rightarrow> bool" where
  "circle_scan g threshold center_intensity y x [] sequential_count = False"
| "circle_scan g threshold center_intensity y x ((dy, dx) # rest) sequential_count =
     (let intensity = pixel g (y + dy) (x + dx)
      in if intensity > center_intensity + threshold \<or> intensity < center_intensity - threshold
         then (if sequential_count + 1 \<ge> 12 then True
               else circle_scan g threshold center_intensity y x rest (sequential_count + 1))
         else circle_scan g threshold center_intensity y x rest 0)"

definition passes_prefilter :: "int list list \<Rightarrow> int \<Rightarrow> int \<Rightarrow> int \<Rightarrow> bool" where
  "passes_prefilter g threshold y x =
     (let (brighter, darker) = cardinal_counts g threshold (pixel g y x) y x [0, 8, 4, 12] (0, 0)
      in brighter \<ge> 3 \<or> darker \<ge> 3)"

definition fast_accepts :: "int list list \<Rightarrow> int \<Rightarrow> int \<Rightarrow> int \<Rightarrow> bool" where
  "fast_accepts g threshold y x \<longleftrightarrow>
     passes_prefilter g threshold y x \<and>
     circle_scan g threshold (pixel g y x) y x bresenham_circle 0"

definition detect_fast :: "ndarray \<Rightarrow> int \<Rightarrow> (int \<times> int) list" where
  "detect_fast img threshold =
     (let g = astype_int32 img; rows = int (height g); cols = int (width g)
      in concat (map (\<lambda>y. concat (map (\<lambda>x. if fast_accepts g threshold y x then [(x, y)] else [])
                                       [3..cols - 4]))
                     [3..rows - 4]))"

text \<open>
  The acceptance rule in the words of the specification: some run of 12 consecutive
  samples of the circle, read circularly (sample 15 is followed by sample 0), is all
  brighter than centre + threshold or all darker than centre - threshold.
\<close>

definition circle_sample :: "int list list \<Rightarrow> int \<Rightarrow> int \<Rightarrow> nat \<Rightarrow> int" where
  "circle_sample g y x i = (let (dy, dx) = bresenham_circle ! i in pixel g (y + dy) (x + dx))"

definition spec_circular_arc :: "int list list \<Rightarrow> int \<Rightarrow> int \<Rightarrow> int \<Rightarrow> bool" where
  "spec_circular_arc g threshold y x \<longleftrightarrow>
     list_ex (\<lambda>s.
        list_all (\<lambda>k. circle_sample g y x ((s + k) mod 16) > pixel g y x + threshold) [0..<12] \<or>
        list_all (\<lambda>k. circle_sample g y x ((s + k) mod 16) < pixel g y x - threshold) [0..<12])
      [0..<16]"


text \<open>
  Two 7-by-7 images with centre value 100 at pixel \<open>(3, 3)\<close>. In the first, samples
  10 to 15 and 0 to 5 of the circle are brighter (200) and samples 6 to 9 are not: a run of
  12 brighter samples that passes through the end of the sequence. In the second, samples
  0 to 8 are brighter (200), samples 9 to 11 are darker (0) and samples 12 to 15 equal the
  centre.
\<close>

definition wrapping_arc_image :: ndarray where
  "wrapping_arc_image = \<lparr>dtype = IntDType, cells =
    [[100, 100, 200, 200, 200, 100, 100],
     [100, 200, 100, 100, 100, 200, 100],
     [200, 100, 100, 100, 100, 100, 100],
     [200, 100, 100, 100, 100, 100, 100],
     [200, 100, 100, 100, 100, 100, 100],
     [100, 200, 100, 100, 100, 100, 100],
     [100, 100, 200, 200, 200, 100, 100]]\<rparr>"

definition mixed_arc_image :: ndarray where
  "mixed_arc_image = \<lparr>dtype = IntDType, cells =
    [[100, 100, 100, 100,   0, 100, 100],
     [100, 100, 100, 100, 100,   0, 100],
     [100, 100, 100, 100, 100, 100,   0],
     [200, 100, 100, 100, 100, 100, 200],
     [200, 100, 100, 100, 100, 100, 200],
     [100, 200, 100, 100, 100, 200, 100],
     [100, 100, 200, 200, 200, 100, 100]]\<rparr>"


text \<open>
  What the loop of the source tests, stated on the sequence of samples: \<open>differs\<close> is the
  condition of its \<^verbatim>\<open>if\<close> (brighter or darker, in one test); \<open>prefix_run D k l\<close> says that
  the first \<open>k\<close> elements of \<open>l\<close> satisfy \<open>D\<close>; \<open>has_run D m l\<close> says that \<open>m\<close> consecutive
  elements of \<open>l\<close> satisfy \<open>D\<close>, without wrapping around the end of \<open>l\<close>.
\<close>

definition differs :: "int list list \<Rightarrow> int \<Rightarrow> int \<Rightarrow> int \<Rightarrow> int \<Rightarrow> int \<times> int \<Rightarrow> bool" where
  "differs g threshold center_intensity y x d \<longleftrightarrow>
     (case d of (dy, dx) \<Rightarrow>
        pixel g (y + dy) (x + dx) > center_intensity + threshold \<or>
        pixel g (y + dy) (x + dx) < center_intensity - threshold)"

definition prefix_run :: "('a \<Rightarrow> bool) \<Rightarrow> nat \<Rightarrow> 'a list \<Rightarrow> bool" where
  "prefix_run D k l \<longleftrightarrow> k \<le> length l \<and> (\<forall>i<k. D (l ! i))"

definition has_run :: "('a \<Rightarrow> bool) \<Rightarrow> nat \<Rightarrow> 'a list \<Rightarrow> bool" where
  "has_run D m l \<longleftrightarrow> (\<exists>s. s + m \<le> length l \<and> (\<forall>i<m. D (l ! (s + i))))"

section \<open>Patches around a keypoint\<close>

text \<open>
  A Python slice \<^verbatim>\<open>a[start:stop]\<close> of an axis of length \<open>n\<close>: a negative bound counts from
  the end, and both bounds are clipped to the axis. \<open>slice_bounds\<close> gives the first index
  and the end index of the slice.
\<close>

definition slice_bounds :: "nat \<Rightarrow> int \<Rightarrow> int \<Rightarrow> int \<times> int" where
  "slice_bounds n start stop =
     (let lo = (if start < 0 then max (start + int n) 0 else min start (int n));
          hi = (if stop < 0 then max (stop + int n) 0 else min stop (int n))
      in (lo, hi))"

definition slice_len :: "nat \<Rightarrow> int \<Rightarrow> int \<Rightarrow> nat" where
  "slice_len n start stop = (let (lo, hi) = slice_bounds n start stop in nat (hi - lo))"

definition py_slice :: "'a list \<Rightarrow> int \<Rightarrow> int \<Rightarrow> 'a list" where
  "py_slice xs start stop =
     (let (lo, hi) = slice_bounds (length xs) start stop
      in take (nat (hi - lo)) (drop (nat lo) xs))"

text \<open>\<^verbatim>\<open>patch = image[y-radius:y+radius+1, x-radius:x+radius+1]\<close> and \<^verbatim>\<open>patch.shape\<close>\<close>

definition patch_at :: "real list list \<Rightarrow> int \<Rightarrow> int \<Rightarrow> int \<Rightarrow> real list list" where
  "patch_at g x y radius =
     map (\<lambda>row. py_slice row (x - radius) (x + radius + 1))
         (py_slice g (y - radius) (y + radius + 1))"

definition patch_shape :: "real list list \<Rightarrow> int \<Rightarrow> int \<Rightarrow> int \<Rightarrow> nat \<times> nat" where
  "patch_shape g x y radius =
     (slice_len (height g) (y - radius) (y + radius + 1),
      slice_len (width g) (x - radius) (x + radius + 1))"

text \<open>
  The condition of the specification: the whole patch of side \<open>2 * radius + 1\<close> centred at
  the pixel \<open>(x, y)\<close> lies inside a grid of \<open>H\<close> rows and \<open>W\<close> columns.
\<close>

definition patch_fits :: "nat \<Rightarrow> nat \<Rightarrow> int \<Rightarrow> int \<times> int \<Rightarrow> bool" where
  "patch_fits H W radius p \<longleftrightarrow>
     (case p of (x, y) \<Rightarrow> 0 \<le> x - radius \<and> x + radius < int W \<and>
                          0 \<le> y - radius \<and> y + radius < int H)"

section \<open>Orientation estimator\<close>

text \<open>\<^verbatim>\<open>np.arange(-radius, radius+1)\<close>\<close>

definition arange :: "int \<Rightarrow> int \<Rightarrow> real list" where
  "arange a b = map real_of_int [a..b - 1]"

text \<open>
  \<^verbatim>\<open>np.sum(patch * w[:, None])\<close>: \<open>w[:, None]\<close> is a column, so cell \<open>(i, j)\<close> of the patch is
  multiplied by \<open>w[i]\<close>, the weight of its row. \<^verbatim>\<open>np.sum(patch * w[None, :])\<close>: \<open>w[None, :]\<close>
  is a row, so cell \<open>(i, j)\<close> is multiplied by \<open>w[j]\<close>, the weight of its column.
\<close>

definition sum_weighted_by_row :: "real list list \<Rightarrow> real list \<Rightarrow> real" where
  "sum_weighted_by_row patch w =
     sum_list (map (\<lambda>(row, wi). sum_list (map (\<lambda>v. v * wi) row)) (zip patch w))"

definition sum_weighted_by_col :: "real list list \<Rightarrow> real list \<Rightarrow> real" where
  "sum_weighted_by_col patch w =
     sum_list (map (\<lambda>row. sum_list (map (\<lambda>(v, wj). v * wj) (zip row w))) patch)"

text \<open>\<^verbatim>\<open>math.atan2(y, x)\<close> over the reals, with \<open>atan2(0, 0) = 0\<close>.\<close>

definition atan2 :: "real \<Rightarrow> real \<Rightarrow> real" where
  "atan2 y x =
     (if 0 < x then arctan (y / x)
      else if x < 0 \<and> 0 \<le> y then arctan (y / x) + pi
      else if x < 0 then arctan (y / x) - pi
      else if 0 < y then pi / 2
      else if y < 0 then - (pi / 2)
      else 0)"

text \<open>The two moments of the source, \<open>(m10, m01)\<close>, for a patch that passed the shape test.\<close>

definition moments :: "real list list \<Rightarrow> int \<Rightarrow> real \<times> real" where
  "moments patch radius =
     (let m10 = sum_weighted_by_row patch (arange (- radius) (radius + 1));
          m01 = sum_weighted_by_col patch (arange (- radius) (radius + 1))
      in (m10, m01))"

text \<open>
  The body of the loop of \<^verbatim>\<open>calculate_orientation\<close> for one keypoint. When \<open>patch_size\<close> is
  even and positive, a patch clipped to exactly \<open>patch_size\<close> rows and columns passes the
  shape test and the product with the \<open>patch_size + 1\<close> weights cannot be broadcast: numpy
  raises \<^verbatim>\<open>ValueError\<close>.
\<close>

definition orientation_at :: "real list list \<Rightarrow> nat \<Rightarrow> int \<times> int \<Rightarrow> error + real" where
  "orientation_at g patch_size p =
     (case p of (x, y) \<Rightarrow>
        let radius = int (patch_size div 2);
            patch = patch_at g x y radius
        in if patch_shape g x y radius \<noteq> (patch_size, patch_size) then Inr 0
           else if even patch_size \<and> 0 < patch_size then Inl ValueError
           else let (m10, m01) = moments patch radius;
                    angle = atan2 m01 m10
                in Inr angle)"

text \<open>A loop that appends one result per element and stops at the first exception.\<close>

fun collect :: "(error + 'a) list \<Rightarrow> error + 'a list" where
  "collect [] = Inr []"
| "collect (Inl e # rs) = Inl e"
| "collect (Inr v # rs) = (case collect rs of Inl e \<Rightarrow> Inl e | Inr vs \<Rightarrow> Inr (v # vs))"

definition calculate_orientation ::
  "ndarray \<Rightarrow> (int \<times> int) list \<Rightarrow> nat \<Rightarrow> error + real list" where
  "calculate_orientation img keypoints patch_size =
     collect (map (orientation_at (cells img) patch_size) keypoints)"

text \<open>
  The moments in the words of the specification: \<open>m10\<close> weighted by the column offset from
  the centre, \<open>m01\<close> by the row offset.
\<close>

definition spec_m10 :: "real list list \<Rightarrow> int \<Rightarrow> real" where
  "spec_m10 patch radius =
     (\<Sum>i\<leftarrow>[0..<length patch]. \<Sum>j\<leftarrow>[0..<length (patch ! i)].
        patch ! i ! j * (real j - real_of_int radius))"

definition spec_m01 :: "real list list \<Rightarrow> int \<Rightarrow> real" where
  "spec_m01 patch radius =
     (\<Sum>i\<leftarrow>[0..<length patch]. \<Sum>j\<leftarrow>[0..<length (patch ! i)].
        patch ! i ! j * (real i - real_of_int radius))"

text \<open>A 3-by-3 image whose only intensity lies one pixel to the right of the centre.\<close>

definition blob_right_image :: ndarray where
  "blob_right_image = \<lparr>dtype = IntDType, cells =
    [[0, 0, 0],
     [0, 0, 9],
     [0, 0, 0]]\<rparr>"


section \<open>Descriptor generator\<close>

text \<open>\<^verbatim>\<open>np.round\<close>: rounding to the nearest integer, a half to the nearest even integer.\<close>

definition round_half_even :: "real \<Rightarrow> int" where
  "round_half_even r =
     (let f = \<lfloor>r\<rfloor>; d = r - of_int f
      in if d < 1 / 2 then f else if 1 / 2 < d then f + 1 else if even f then f else f + 1)"

text \<open>
  One row of \<^verbatim>\<open>np.round(random_points @ rotation_mat.T).astype(int)\<close>, with
  \<^verbatim>\<open>rotation_mat = [[cos, -sin], [sin, cos]]\<close>.
\<close>

definition rotate_point :: "real \<Rightarrow> int \<times> int \<Rightarrow> int \<times> int" where
  "rotate_point angle p =
     (case p of (px, py) \<Rightarrow>
        (round_half_even (of_int px * cos angle - of_int py * sin angle),
         round_half_even (of_int px * sin angle + of_int py * cos angle)))"

text \<open>The body of the loop \<^verbatim>\<open>for dx, dy in rotated_points\<close>: the bit appended.\<close>

definition descriptor_bit :: "real list list \<Rightarrow> int \<Rightarrow> nat \<Rightarrow> int \<times> int \<Rightarrow> nat" where
  "descriptor_bit patch radius patch_size d =
     (case d of (dx, dy) \<Rightarrow>
        let px1 = radius + dx; py1 = radius + dy;
            px2 = radius - dx; py2 = radius - dy
        in if 0 \<le> px1 \<and> px1 < int patch_size \<and> 0 \<le> py1 \<and> py1 < int patch_size \<and>
              0 \<le> px2 \<and> px2 < int patch_size \<and> 0 \<le> py2 \<and> py2 < int patch_size
           then (if patch ! nat py1 ! nat px1 > patch ! nat py2 ! nat px2 then 1 else 0)
           else 0)"

text \<open>The descriptor built for one keypoint whose patch passed the shape test.\<close>

definition keypoint_descriptor ::
  "real list list \<Rightarrow> nat \<Rightarrow> (int \<times> int) list \<Rightarrow> int \<times> int \<Rightarrow> real \<Rightarrow> nat list" where
  "keypoint_descriptor g patch_size random_points p angle =
     (case p of (x, y) \<Rightarrow>
        let radius = int (patch_size div 2);
            patch = patch_at g x y radius;
            rotated_points = map (rotate_point angle) random_points
        in map (descriptor_bit patch radius patch_size) rotated_points)"

text \<open>
  \<^verbatim>\<open>brief_descriptor(image, keypoints, orientations, patch_size, n)\<close>. The sampling pattern
  is drawn inside the function by \<^verbatim>\<open>np.random.randint(-radius, radius, size=(n, 2))\<close>; the
  model takes the drawn pattern as the argument \<open>random_points\<close>. The draw raises
  \<^verbatim>\<open>ValueError\<close> when the range is empty (\<open>radius = 0\<close>) and a point is asked for. The loop
  runs over \<^verbatim>\<open>zip(keypoints, orientations)\<close>, which stops at the end of the shorter
  sequence.
\<close>

definition pattern_drawn :: "int \<Rightarrow> nat \<Rightarrow> (int \<times> int) list \<Rightarrow> bool" where
  "pattern_drawn radius n random_points \<longleftrightarrow>
     length random_points = n \<and>
     list_all (\<lambda>(a, b). - radius \<le> a \<and> a < radius \<and> - radius \<le> b \<and> b < radius) random_points"

definition brief_descriptor ::
  "ndarray \<Rightarrow> (int \<times> int) list \<Rightarrow> real list \<Rightarrow> nat \<Rightarrow> nat \<Rightarrow> (int \<times> int) list
   \<Rightarrow> error + nat list list" where
  "brief_descriptor img keypoints orientations patch_size n random_points =
     (let radius = int (patch_size div 2)
      in if radius = 0 \<and> 0 < n then Inl ValueError
         else Inr (concat (map (\<lambda>(p, angle).
                 case p of (x, y) \<Rightarrow>
                   if patch_shape (cells img) x y radius \<noteq> (patch_size, patch_size) then []
                   else let descriptor =
                              keypoint_descriptor (cells img) patch_size random_points p angle
                        in if length descriptor = n then [descriptor] else [])
               (zip keypoints orientations))))"

text \<open>
  The bit in the words of the specification, for a rotated pair \<open>(dx, dy)\<close> and the patch
  centre \<open>center\<close>: 1 when both compared positions are inside the patch and the intensity at
  \<open>(center + dx, center + dy)\<close> is strictly greater than at \<open>(center - dx, center - dy)\<close>,
  0 otherwise. A position \<open>(px, py)\<close> is column \<open>px\<close> of row \<open>py\<close>.
\<close>

definition in_patch :: "nat \<Rightarrow> int \<times> int \<Rightarrow> bool" where
  "in_patch patch_size q \<longleftrightarrow>
     (case q of (px, py) \<Rightarrow> 0 \<le> px \<and> px < int patch_size \<and> 0 \<le> py \<and> py < int patch_size)"

definition patch_value :: "real list list \<Rightarrow> int \<times> int \<Rightarrow> real" where
  "patch_value patch q = (case q of (px, py) \<Rightarrow> patch ! nat py ! nat px)"

definition spec_bit :: "real list list \<Rightarrow> int \<Rightarrow> nat \<Rightarrow> int \<times> int \<Rightarrow> nat" where
  "spec_bit patch center patch_size d =
     (case d of (dx, dy) \<Rightarrow>
        if in_patch patch_size (center + dx, center + dy) \<and>
           in_patch patch_size (center - dx, center - dy)
        then (if patch_value patch (center + dx, center + dy)
                 > patch_value patch (center - dx, center - dy) then 1 else 0)
        else 0)"


section \<open>Harris corner filter\<close>














section \<open>Properties of the convolution\<close>



lemma rect_width: "rect g H W \<Longrightarrow> 0 < H \<Longrightarrow> width g = W"
  by (cases g) (auto simp: rect_def width_def)

lemma rect_height: "rect g H W \<Longrightarrow> height g = H"
  by (simp add: rect_def height_def)










lemma convolve_Inr:
  assumes "rect (cells img) H W" "0 < H" "0 < W"
  shows "convolve img kern = Inr \<lparr> dtype = dtype img,
            cells = map (\<lambda>i. map (\<lambda>j. store (dtype img)
                       (sum_prod (region (pad_reflect (cells img) (height kern div 2)
                                            (width kern div 2))
                                    i j (height kern) (width kern)) kern))
                     [0..<W]) [0..<H] \<rparr>"
  using assms by (simp add: convolve_def Let_def rect_height rect_width)


lemmas convolve_eval = convolve_def Let_def height_def width_def pad_reflect_def
  reflect_index_def region_def sum_prod_def dot_row_def store_def trunc_zero_def
  upt_rec_numeral



text \<open>
  The same grid and kernel under both element types: the integer grid loses the
  fractional results that the float grid keeps.
\<close>

lemma convolve_int_truncates:
  "convolve \<lparr>dtype = IntDType, cells = [[0, 0, 1]]\<rparr> [[1/3, 1/3, 1/3]]
     = Inr \<lparr>dtype = IntDType, cells = [[0, 0, 0]]\<rparr>"
  "convolve \<lparr>dtype = FloatDType, cells = [[0, 0, 1]]\<rparr> [[1/3, 1/3, 1/3]]
     = Inr \<lparr>dtype = FloatDType, cells = [[0, 1/3, 1/3]]\<rparr>"
  by (simp_all add: convolve_eval)

text \<open>
  Claim C5 as stated fails: \<open>convolve\<close> has no test of the kernel's shape. A 2-by-2 kernel
  on a 2-by-2 grid is padded by one cell on every side and yields a result grid.
\<close>

theorem convolve_even_kernel_counterexample:
  "even (height [[1/4, 1/4], [1/4, 1/4::real]]) \<and> even (width [[1/4, 1/4], [1/4, 1/4::real]]) \<and>
   convolve \<lparr>dtype = FloatDType, cells = [[1, 2], [3, 4]]\<rparr> [[1/4, 1/4], [1/4, 1/4]]
     = Inr \<lparr>dtype = FloatDType, cells = [[5/2, 5/2], [5/2, 5/2]]\<rparr>"
  by (simp add: convolve_eval)

text \<open>
  Claim C5, amended. \<open>convolve\<close> does not check the parity of the kernel's dimensions: for
  every kernel with an even height or an even width and every non-empty grid of \<open>H\<close> rows
  and \<open>W\<close> columns it returns a result grid of \<open>H\<close> rows and \<open>W\<close> columns with the element
  type of the input; it raises no error.
\<close>

theorem convolve_even_kernel_returns:
  assumes "rect (cells img) H W" "0 < H" "0 < W"
    and "even (height kern) \<or> even (width kern)"
  shows "\<exists>out. convolve img kern = Inr out \<and> dtype out = dtype img \<and> rect (cells out) H W"
  by (subst convolve_Inr [OF assms(1-3)]) (simp add: rect_def list_all_iff)

theorem convolve_even_kernel_returns_witness:
  "\<exists>out. convolve \<lparr>dtype = FloatDType, cells = [[1, 2], [3, 4]]\<rparr> [[1/4, 1/4], [1/4, 1/4]]
            = Inr out
     \<and> dtype out = FloatDType \<and> rect (cells out) 2 2"
  using convolve_even_kernel_returns
    [of "\<lparr>dtype = FloatDType, cells = [[1, 2], [3, 4]]\<rparr>" 2 2 "[[1/4, 1/4], [1/4, 1/4]]"]
  by (simp add: rect_def height_def)

section \<open>Properties of the Gaussian kernel\<close>

lemma gauss_cell_pos: "\<sigma> \<noteq> 0 \<Longrightarrow> 0 < gauss_cell sz \<sigma> x y"
  by (simp add: gauss_cell_def)


lemma sum_list_pos_real:
  "xs \<noteq> [] \<Longrightarrow> (\<And>x. x \<in> set xs \<Longrightarrow> 0 < x) \<Longrightarrow> 0 < sum_list (xs :: real list)"
proof (induction xs)
  case Nil
  then show ?case by simp
next
  case (Cons a xs)
  show ?case
  proof (cases "xs = []")
    case True
    with Cons.prems show ?thesis by simp
  next
    case False
    with Cons have "0 < sum_list xs" by simp
    moreover have "0 < a" using Cons.prems by simp
    ultimately show ?thesis by simp
  qed
qed

lemma np_sum_raw_pos:
  assumes "0 < sz" "\<sigma> \<noteq> 0"
  shows "0 < np_sum (map (\<lambda>x. map (\<lambda>y. gauss_cell sz \<sigma> x y) [0..<sz]) [0..<sz])"
  unfolding np_sum_def
  using assms
  by (intro sum_list_pos_real) (auto intro!: sum_list_pos_real gauss_cell_pos)


lemma sum_list_scale: "sum_list (map (\<lambda>v. v / s) xs) = sum_list xs / (s :: real)"
  by (induction xs) (simp_all add: add_divide_distrib)

lemma np_sum_scale: "np_sum (map (map (\<lambda>v. v / s)) g) = np_sum g / s"
  unfolding np_sum_def
  by (induction g) (simp_all add: sum_list_scale add_divide_distrib)

text \<open>The kernel is a square of side \<open>sz\<close> and its weights sum to 1.\<close>

lemma gaussian_kernel_rect: "rect (gaussian_kernel sz \<sigma>) sz sz"
  by (simp add: gaussian_kernel_def Let_def rect_def list_all_iff)

lemma gaussian_kernel_sum: "0 < sz \<Longrightarrow> \<sigma> \<noteq> 0 \<Longrightarrow> np_sum (gaussian_kernel sz \<sigma>) = 1"
  using np_sum_raw_pos [of sz \<sigma>]
  unfolding gaussian_kernel_def Let_def np_sum_scale by simp



section \<open>Properties of the FAST detector\<close>

text \<open>
  Claim C1. The claim asks that a pixel passing the cardinal pre-filter be accepted exactly
  when some circular run of 12 samples has one polarity. The loop of \<open>detect_fast\<close> reads
  the 16 samples once, from sample 0 to sample 15, so a run that passes through the end of
  the sequence is cut in two; and it counts a sample that is brighter or darker, so a run
  of mixed polarity is counted as one. At the centre of \<open>wrapping_arc_image\<close> the
  pre-filter passes and a circular run of 12 brighter samples exists, yet no candidate is
  returned; at the centre of \<open>mixed_arc_image\<close> the pre-filter passes and no run of 12
  samples of one polarity exists, yet the pixel is returned.
\<close>

theorem detect_fast_arc_divergence:
  "passes_prefilter (astype_int32 wrapping_arc_image) 30 3 3 \<and>
   spec_circular_arc (astype_int32 wrapping_arc_image) 30 3 3 \<and>
   detect_fast wrapping_arc_image 30 = [] \<and>
   passes_prefilter (astype_int32 mixed_arc_image) 30 3 3 \<and>
   \<not> spec_circular_arc (astype_int32 mixed_arc_image) 30 3 3 \<and>
   detect_fast mixed_arc_image 30 = [(3, 3)]"
  unfolding wrapping_arc_image_def mixed_arc_image_def by code_simp

text \<open>
  What the loop accepts, for every image: the pixel passes the cardinal pre-filter, and 12
  consecutive samples of the sequence 0 to 15, not wrapping around its end, each differ from
  the centre by more than the threshold, in either direction.
\<close>

lemma prefix_run_Cons: "prefix_run D (Suc k) (a # l) \<longleftrightarrow> D a \<and> prefix_run D k l"
  unfolding prefix_run_def
  by (auto simp: less_Suc_eq_0_disj)

lemma prefix_run_mono: "k' \<le> k \<Longrightarrow> prefix_run D k l \<Longrightarrow> prefix_run D k' l"
  by (auto simp: prefix_run_def)

lemma prefix_has_run: "prefix_run D m l \<Longrightarrow> has_run D m l"
  unfolding prefix_run_def has_run_def
  by (rule exI [of _ 0]) simp

lemma has_run_Cons:
  "has_run D m (a # l) \<longleftrightarrow> prefix_run D m (a # l) \<or> has_run D m l"
proof
  assume "has_run D m (a # l)"
  then obtain s where s: "s + m \<le> length (a # l)" "\<forall>i<m. D ((a # l) ! (s + i))"
    by (auto simp: has_run_def)
  show "prefix_run D m (a # l) \<or> has_run D m l"
  proof (cases s)
    case 0
    with s show ?thesis by (auto simp: prefix_run_def)
  next
    case (Suc s')
    with s have "s' + m \<le> length l" "\<forall>i<m. D (l ! (s' + i))" by auto
    then show ?thesis by (auto simp: has_run_def)
  qed
next
  assume "prefix_run D m (a # l) \<or> has_run D m l"
  then show "has_run D m (a # l)"
  proof
    assume "prefix_run D m (a # l)"
    then show ?thesis by (rule prefix_has_run)
  next
    assume "has_run D m l"
    then obtain s where "s + m \<le> length l" "\<forall>i<m. D (l ! (s + i))"
      by (auto simp: has_run_def)
    then have "Suc s + m \<le> length (a # l)" "\<forall>i<m. D ((a # l) ! (Suc s + i))" by auto
    then show ?thesis unfolding has_run_def by blast
  qed
qed

lemma circle_scan_iff:
  "n < 12 \<Longrightarrow>
   circle_scan g t c y x offs n \<longleftrightarrow>
     prefix_run (differs g t c y x) (12 - n) offs \<or> has_run (differs g t c y x) 12 offs"
proof (induction offs arbitrary: n)
  case Nil
  then show ?case by (auto simp: prefix_run_def has_run_def)
next
  case (Cons d offs)
  obtain dy dx where d: "d = (dy, dx)" by (cases d)
  let ?D = "differs g t c y x"
  have S: "12 - n = Suc (11 - n)" using Cons.prems by simp
  show ?case
  proof (cases "?D d")
    case False
    then have "\<not> prefix_run ?D (12 - n) (d # offs)" "\<not> prefix_run ?D 12 (d # offs)"
      using prefix_run_Cons [of ?D _ d offs] S by (auto simp: numeral_eq_Suc)
    moreover have "circle_scan g t c y x (d # offs) n = circle_scan g t c y x offs 0"
      using False by (simp add: d differs_def Let_def)
    moreover have "circle_scan g t c y x offs 0 \<longleftrightarrow> has_run ?D 12 offs"
      using Cons.IH [of 0] prefix_has_run [of ?D 12 offs] by auto
    ultimately show ?thesis
      by (simp add: has_run_Cons [of ?D 12 d offs])
  next
    case True
    have P: "prefix_run ?D (12 - n) (d # offs) \<longleftrightarrow> prefix_run ?D (11 - n) offs"
      using True by (simp add: S prefix_run_Cons)
    have Q: "prefix_run ?D 12 (d # offs) \<Longrightarrow> prefix_run ?D (12 - n) (d # offs)"
      by (rule prefix_run_mono) simp_all
    show ?thesis
    proof (cases "n = 11")
      case True
      then have "circle_scan g t c y x (d # offs) n"
        using \<open>?D d\<close> by (simp add: d differs_def Let_def)
      moreover have "prefix_run ?D (12 - n) (d # offs)"
        using True \<open>?D d\<close> by (simp add: prefix_run_def)
      ultimately show ?thesis by simp
    next
      case False
      then have n: "Suc n < 12" using Cons.prems by simp
      have "circle_scan g t c y x (d # offs) n = circle_scan g t c y x offs (Suc n)"
        using \<open>?D d\<close> n by (simp add: d differs_def Let_def)
      also have "\<dots> \<longleftrightarrow> prefix_run ?D (11 - n) offs \<or> has_run ?D 12 offs"
        using Cons.IH [OF n] by simp
      finally show ?thesis
        using P Q by (auto simp: has_run_Cons [of ?D 12 d offs])
    qed
  qed
qed

lemma fast_accepts_iff:
  "fast_accepts g t y x \<longleftrightarrow>
     passes_prefilter g t y x \<and> has_run (differs g t (pixel g y x) y x) 12 bresenham_circle"
  using prefix_has_run [of "differs g t (pixel g y x) y x" 12 bresenham_circle]
  by (auto simp: fast_accepts_def circle_scan_iff)

section \<open>Properties of patches\<close>

lemma slice_len_full:
  assumes "0 \<le> c" "0 \<le> r"
  shows "slice_len n (c - r) (c + r + 1) = nat (2 * r + 1) \<longleftrightarrow> 0 \<le> c - r \<and> c + r < int n"
  using assms by (auto simp: slice_len_def slice_bounds_def Let_def)

text \<open>
  For a pixel with coordinates that are not negative and an odd patch size, the shape test
  of the source passes exactly when the whole patch lies inside the grid.
\<close>

lemma patch_shape_iff:
  assumes "rect g H W" "0 \<le> x" "0 \<le> y" "patch_size = 2 * r + 1"
  shows "patch_shape g x y (int r) = (patch_size, patch_size)
         \<longleftrightarrow> patch_fits H W (int r) (x, y)"
proof (cases "H = 0")
  case True
  then show ?thesis
    using assms
    by (auto simp: patch_shape_def patch_fits_def rect_def height_def slice_len_def
        slice_bounds_def)
next
  case False
  then have w: "width g = W" and h: "height g = H"
    using assms(1) by (simp_all add: rect_width rect_height)
  have e: "patch_size = nat (2 * int r + 1)"
    using assms(4) by simp
  show ?thesis
    unfolding patch_shape_def w h e patch_fits_def prod.inject prod.case
    using slice_len_full [of x "int r" W] slice_len_full [of y "int r" H] assms(2,3)
    by auto
qed

lemmas patch_eval = patch_at_def patch_shape_def slice_len_def slice_bounds_def py_slice_def
  height_def width_def Let_def

section \<open>Properties of the orientation estimator\<close>

lemma collect_map_Inr:
  "(\<And>p. p \<in> set ps \<Longrightarrow> f p = Inr (h p)) \<Longrightarrow> collect (map f ps) = Inr (map h ps)"
  by (induction ps) simp_all

lemma orientation_at_odd:
  assumes "odd patch_size"
  shows "orientation_at g patch_size p = Inr (projr (orientation_at g patch_size p))"
  using assms by (cases p) (auto simp: orientation_at_def Let_def split: prod.splits)

lemma orientation_at_sentinel:
  assumes "rect g H W" "odd patch_size" "0 \<le> x" "0 \<le> y"
    and "\<not> patch_fits H W (int (patch_size div 2)) (x, y)"
  shows "orientation_at g patch_size (x, y) = Inr 0"
proof -
  have "patch_size = 2 * (patch_size div 2) + 1"
    using assms(2) by presburger
  from patch_shape_iff [OF assms(1,3,4) this] assms(5)
  show ?thesis by (simp add: orientation_at_def Let_def)
qed

text \<open>
  Claim C8. For every sequence of keypoints (pixel coordinates, so not negative) on a grid of
  \<open>H\<close> rows and \<open>W\<close> columns and every odd patch size, the orientation estimator returns a
  sequence of the same length; the orientation at index \<open>i\<close> is the one computed for the
  keypoint at index \<open>i\<close> alone; and it is the sentinel 0 for every keypoint whose patch
  would extend outside the grid. No keypoint is dropped.
\<close>

theorem calculate_orientation_aligned:
  assumes r: "rect (cells img) H W" and o: "odd patch_size"
    and nn: "\<forall>p\<in>set keypoints. 0 \<le> fst p \<and> 0 \<le> snd p"
  shows "\<exists>orientations.
           calculate_orientation img keypoints patch_size = Inr orientations \<and>
           length orientations = length keypoints \<and>
           (\<forall>i<length keypoints.
              calculate_orientation img [keypoints ! i] patch_size = Inr [orientations ! i] \<and>
              (\<not> patch_fits H W (int (patch_size div 2)) (keypoints ! i)
                 \<longrightarrow> orientations ! i = 0))"
proof -
  let ?h = "\<lambda>p. projr (orientation_at (cells img) patch_size p)"
  have c: "calculate_orientation img ks patch_size = Inr (map ?h ks)" for ks
    unfolding calculate_orientation_def
    by (rule collect_map_Inr) (rule orientation_at_odd [OF o])
  have s: "?h (keypoints ! i) = 0"
    if "i < length keypoints"
      "\<not> patch_fits H W (int (patch_size div 2)) (keypoints ! i)" for i
  proof -
    obtain x y where p: "keypoints ! i = (x, y)"
      by (cases "keypoints ! i")
    have "0 \<le> x \<and> 0 \<le> y"
      using nn that(1) p by (metis fst_conv snd_conv nth_mem)
    then show ?thesis
      using orientation_at_sentinel [OF r o, of x y] that(2) p by simp
  qed
  show ?thesis
    by (rule exI [of _ "map ?h keypoints"]) (simp add: c s)
qed

theorem calculate_orientation_aligned_witness:
  "\<exists>orientations.
     calculate_orientation blob_right_image [(1, 1), (0, 0)] 3 = Inr orientations \<and>
     length orientations = 2 \<and> orientations ! 1 = 0"
proof -
  have r: "rect (cells blob_right_image) 3 3"
    by (simp add: blob_right_image_def rect_def)
  have nn: "\<forall>p\<in>set ([(1, 1), (0, 0)] :: (int \<times> int) list). 0 \<le> fst p \<and> 0 \<le> snd p"
    by simp
  from calculate_orientation_aligned [OF r _ nn, of 3]
  obtain orientations where
    o: "calculate_orientation blob_right_image [(1, 1), (0, 0)] 3 = Inr orientations"
      "length orientations = 2"
    and s: "\<not> patch_fits 3 3 (int (3 div 2)) ([(1, 1), (0, 0)] ! 1) \<longrightarrow> orientations ! 1 = 0"
    by auto
  from s have "orientations ! 1 = 0"
    by (simp add: patch_fits_def)
  with o show ?thesis by blast
qed

lemma sum_list_zip_nth:
  assumes "length xs = length ws"
  shows "sum_list (map f (zip xs ws)) = (\<Sum>i\<leftarrow>[0..<length xs]. f (xs ! i, ws ! i))"
proof -
  have "zip xs ws = map (\<lambda>i. (xs ! i, ws ! i)) [0..<length xs]"
    using assms by (intro nth_equalityI) simp_all
  then show ?thesis by (simp add: o_def)
qed

lemma sum_list_nth: "sum_list (map f xs) = (\<Sum>j\<leftarrow>[0..<length xs]. f (xs ! j))"
proof -
  have "map f xs = map (\<lambda>j. f (xs ! j)) [0..<length xs]"
    by (intro nth_equalityI) simp_all
  then show ?thesis by simp
qed

lemma length_arange: "length (arange (- int r) (int r + 1)) = 2 * r + 1"
  by (simp add: arange_def)

lemma nth_arange: "i < 2 * r + 1 \<Longrightarrow> arange (- int r) (int r + 1) ! i = real i - real r"
  by (simp add: arange_def nth_upto)

lemma sum_list_cong_upt:
  "(\<And>i. i < n \<Longrightarrow> f i = g i) \<Longrightarrow> (\<Sum>i\<leftarrow>[0..<n]. f i) = (\<Sum>i\<leftarrow>[0..<n]. g i)"
  by (rule arg_cong [where f = sum_list]) simp

text \<open>
  On every full patch the two moments of the source are exchanged with respect to the
  specification: the source's \<open>m10\<close> is the sum weighted by the row offset, which the
  specification calls \<open>m01\<close>, and the source's \<open>m01\<close> is the sum weighted by the column
  offset, which the specification calls \<open>m10\<close>.
\<close>

lemma moments_swapped:
  assumes "rect patch (2 * r + 1) (2 * r + 1)"
  shows "moments patch (int r) = (spec_m01 patch (int r), spec_m10 patch (int r))"
proof -
  have l: "length patch = 2 * r + 1"
    and lr: "\<And>i. i < 2 * r + 1 \<Longrightarrow> length (patch ! i) = 2 * r + 1"
    using assms by (auto simp: rect_def list_all_length)
  have a: "sum_weighted_by_row patch (arange (- int r) (int r + 1)) = spec_m01 patch (int r)"
    unfolding sum_weighted_by_row_def spec_m01_def
    apply (subst sum_list_zip_nth)
     apply (simp add: l length_arange)
    apply (rule sum_list_cong_upt)
    apply (simp add: l nth_arange)
    apply (subst sum_list_nth)
    apply simp
    done
  have b: "sum_weighted_by_col patch (arange (- int r) (int r + 1)) = spec_m10 patch (int r)"
    unfolding sum_weighted_by_col_def spec_m10_def
    apply (subst sum_list_nth)
    apply (rule sum_list_cong_upt)
    apply (subst sum_list_zip_nth)
     apply (simp add: l lr length_arange)
    apply (rule sum_list_cong_upt)
    apply (simp add: l lr nth_arange)
    done
  show ?thesis by (simp add: moments_def Let_def a b)
qed

lemma blob_right_patch:
  "patch_at (cells blob_right_image) 1 1 1 = [[0, 0, 0], [0, 0, 9], [0, 0, 0]]"
  by (simp add: blob_right_image_def patch_eval)

lemma blob_right_moments: "moments [[0, 0, 0], [0, 0, 9], [0, 0, 0]] 1 = (0, 9)"
  by code_simp

lemma blob_right_spec_moments:
  "spec_m10 [[0, 0, 0], [0, 0, 9], [0, 0, 0]] 1 = 9"
  "spec_m01 [[0, 0, 0], [0, 0, 9], [0, 0, 0]] 1 = 0"
  by code_simp+

text \<open>
  Claim C2. The claim asks for \<open>m10\<close> weighted by the column offset, \<open>m01\<close> by the row
  offset, and an orientation of about 0 for an intensity mass exactly to the right of the
  centre. In \<open>blob_right_image\<close> the only intensity is one pixel to the right of the centre
  \<open>(1, 1)\<close>, in the same row. The moments of the specification are \<open>m10 = 9\<close>, \<open>m01 = 0\<close> and
  give the angle 0; the source computes \<open>m10 = 0\<close>, \<open>m01 = 9\<close> and returns \<open>\<pi> / 2\<close>.
\<close>

theorem calculate_orientation_blob_right:
  "moments (patch_at (cells blob_right_image) 1 1 1) 1 = (0, 9) \<and>
   calculate_orientation blob_right_image [(1, 1)] 3 = Inr [pi / 2] \<and>
   spec_m10 (patch_at (cells blob_right_image) 1 1 1) 1 = 9 \<and>
   spec_m01 (patch_at (cells blob_right_image) 1 1 1) 1 = 0 \<and>
   atan2 (spec_m01 (patch_at (cells blob_right_image) 1 1 1) 1)
         (spec_m10 (patch_at (cells blob_right_image) 1 1 1) 1) = 0"
proof -
  have "calculate_orientation blob_right_image [(1, 1)] 3 = Inr [pi / 2]"
    by (simp add: calculate_orientation_def orientation_at_def blob_right_patch
        blob_right_moments atan2_def)
      (simp add: blob_right_image_def patch_eval)
  then show ?thesis
    by (simp add: blob_right_patch blob_right_moments blob_right_spec_moments atan2_def)
qed

section \<open>Properties of the descriptor generator\<close>

lemma py_slice_patch:
  assumes "0 \<le> c - int r" "c + int r + 1 \<le> int (length xs)"
  shows "py_slice xs (c - int r) (c + int r + 1) = take (2 * r + 1) (drop (nat (c - int r)) xs)"
proof -
  have "c + int r + 1 - (c - int r) = int (2 * r + 1)" by simp
  then have "nat (c + int r + 1 - (c - int r)) = 2 * r + 1" by (simp only: nat_int)
  then show ?thesis
    using assms by (simp add: py_slice_def slice_bounds_def Let_def)
qed

lemma patch_at_nth:
  assumes r: "rect g H W" and f: "patch_fits H W (int r) (x, y)"
    and a: "a < 2 * r + 1" and b: "b < 2 * r + 1"
  shows "patch_at g x y (int r) ! a ! b = g ! nat (y - int r + int a) ! nat (x - int r + int b)"
proof -
  have H: "length g = H" using r by (simp add: rect_def)
  have y: "0 \<le> y - int r" "y + int r + 1 \<le> int (length g)"
    and x: "0 \<le> x - int r" "x + int r + 1 \<le> int W"
    using f H by (simp_all add: patch_fits_def)
  have ra: "nat (y - int r) + a < length g" using y a by linarith
  then have row: "length (g ! (nat (y - int r) + a)) = W"
    using r by (simp add: rect_def list_all_length)
  have rb: "nat (x - int r) + b < W" using x b by linarith
  have rows: "py_slice g (y - int r) (y + int r + 1)
              = take (2 * r + 1) (drop (nat (y - int r)) g)"
    using y by (rule py_slice_patch)
  have cols: "py_slice (g ! (nat (y - int r) + a)) (x - int r) (x + int r + 1)
              = take (2 * r + 1) (drop (nat (x - int r)) (g ! (nat (y - int r) + a)))"
    using x row by (intro py_slice_patch) simp_all
  have n1: "nat (y - int r + int a) = nat (y - int r) + a" using y by (simp add: nat_add_distrib)
  have n2: "nat (x - int r + int b) = nat (x - int r) + b" using x by (simp add: nat_add_distrib)
  have la: "a < length (take (2 * r + 1) (drop (nat (y - int r)) g))"
    using a ra by simp
  have "patch_at g x y (int r) ! a
        = py_slice (g ! (nat (y - int r) + a)) (x - int r) (x + int r + 1)"
    unfolding patch_at_def rows using la a ra by (simp add: nth_map [OF la])
  also have "\<dots> ! b = g ! (nat (y - int r) + a) ! (nat (x - int r) + b)"
    unfolding cols using b rb row by simp
  finally show ?thesis by (simp only: n1 n2)
qed

lemma patch_at_rect:
  assumes r: "rect g H W" and f: "patch_fits H W (int r) (x, y)"
  shows "rect (patch_at g x y (int r)) (2 * r + 1) (2 * r + 1)"
proof -
  have H: "length g = H" using r by (simp add: rect_def)
  have y: "0 \<le> y - int r" "y + int r + 1 \<le> int (length g)"
    and x: "0 \<le> x - int r" "x + int r + 1 \<le> int W"
    using f H by (simp_all add: patch_fits_def)
  have rows: "py_slice g (y - int r) (y + int r + 1)
              = take (2 * r + 1) (drop (nat (y - int r)) g)"
    using y by (rule py_slice_patch)
  have cols: "py_slice row (x - int r) (x + int r + 1)
              = take (2 * r + 1) (drop (nat (x - int r)) row)" if "length row = W" for row :: "real list"
    using x that by (intro py_slice_patch) simp_all
  have allW: "\<And>row. row \<in> set g \<Longrightarrow> length row = W"
    using r by (simp add: rect_def list_all_iff)
  have "length (patch_at g x y (int r)) = 2 * r + 1"
    unfolding patch_at_def rows using y by (simp; linarith)
  moreover have "length row = 2 * r + 1" if "row \<in> set (patch_at g x y (int r))" for row
  proof -
    from that obtain row0 where r0: "row0 \<in> set g" "row = py_slice row0 (x - int r) (x + int r + 1)"
      unfolding patch_at_def rows by (auto dest: in_set_takeD in_set_dropD)
    show ?thesis using x allW [OF r0(1)] by (simp add: r0(2) cols [OF allW [OF r0(1)]]; linarith)
  qed
  ultimately show ?thesis by (simp add: rect_def list_all_iff)
qed

lemma concat_map_if:
  "concat (map (\<lambda>z. if P z then [f z] else []) zs) = map f (filter P zs)"
  by (induction zs) simp_all

lemma descriptor_bit_spec:
  "descriptor_bit patch radius patch_size d = spec_bit patch radius patch_size d"
  by (cases d) (simp add: descriptor_bit_def spec_bit_def in_patch_def patch_value_def Let_def)

lemma length_keypoint_descriptor:
  "length (keypoint_descriptor g patch_size random_points p angle) = length random_points"
  by (cases p) (simp add: keypoint_descriptor_def Let_def)

lemma brief_descriptor_filter:
  assumes r: "rect (cells img) H W" and o: "odd patch_size" and p3: "3 \<le> patch_size"
    and nn: "\<forall>p\<in>set keypoints. 0 \<le> fst p \<and> 0 \<le> snd p"
    and n: "length random_points = n"
  shows "brief_descriptor img keypoints orientations patch_size n random_points
         = Inr (map (\<lambda>(p, angle). keypoint_descriptor (cells img) patch_size random_points p angle)
                 (filter (\<lambda>(p, angle). patch_fits H W (int (patch_size div 2)) p)
                    (zip keypoints orientations)))"
proof -
  have ps: "patch_size = 2 * (patch_size div 2) + 1" using o by presburger
  have r0: "int (patch_size div 2) \<noteq> 0" using p3 by simp
  have body: "(case z of (p, angle) \<Rightarrow> case p of (x, y) \<Rightarrow>
                 if patch_shape (cells img) x y (int (patch_size div 2)) \<noteq> (patch_size, patch_size)
                 then []
                 else if length (keypoint_descriptor (cells img) patch_size random_points p angle) = n
                      then [keypoint_descriptor (cells img) patch_size random_points p angle]
                      else [])
              = (if (case z of (p, angle) \<Rightarrow> patch_fits H W (int (patch_size div 2)) p)
                 then [case z of (p, angle) \<Rightarrow>
                         keypoint_descriptor (cells img) patch_size random_points p angle]
                 else [])"
    if "z \<in> set (zip keypoints orientations)" for z
  proof -
    obtain x y angle where z: "z = ((x, y), angle)" by (metis surj_pair)
    then have "(x, y) \<in> set keypoints" using that by (auto dest: set_zip_leftD)
    then have "0 \<le> x" "0 \<le> y" using nn by auto
    from patch_shape_iff [OF r this ps] show ?thesis
      by (simp add: z Let_def length_keypoint_descriptor n)
  qed
  have m: "map (\<lambda>z. case z of (p, angle) \<Rightarrow> case p of (x, y) \<Rightarrow>
                 if patch_shape (cells img) x y (int (patch_size div 2)) \<noteq> (patch_size, patch_size)
                 then []
                 else if length (keypoint_descriptor (cells img) patch_size random_points p angle) = n
                      then [keypoint_descriptor (cells img) patch_size random_points p angle]
                      else []) (zip keypoints orientations)
           = map (\<lambda>z. if (case z of (p, angle) \<Rightarrow> patch_fits H W (int (patch_size div 2)) p)
                 then [case z of (p, angle) \<Rightarrow>
                         keypoint_descriptor (cells img) patch_size random_points p angle]
                 else []) (zip keypoints orientations)"
    by (rule map_cong [OF refl]) (rule body)
  have "brief_descriptor img keypoints orientations patch_size n random_points
        = Inr (concat (map (\<lambda>z. if (case z of (p, angle) \<Rightarrow> patch_fits H W (int (patch_size div 2)) p)
                 then [case z of (p, angle) \<Rightarrow>
                         keypoint_descriptor (cells img) patch_size random_points p angle]
                 else []) (zip keypoints orientations)))"
    unfolding brief_descriptor_def Let_def m [symmetric] using r0
    by simp
  then show ?thesis by (simp only: concat_map_if)
qed

text \<open>
  Claim C7. For a grid of \<open>H\<close> rows and \<open>W\<close> columns, keypoints that are pixel coordinates
  (not negative), an aligned sequence of orientations (same length), an odd patch size of
  at least 3 and a drawn pattern of \<open>n\<close> pairs, the descriptor generator returns exactly one
  descriptor for each keypoint whose full patch fits inside the grid, in the order of
  those keypoints, and nothing for a keypoint whose patch is clipped; every descriptor has
  exactly \<open>n\<close> bits. The output is as long as the sequence of fitting keypoints, so it may
  be shorter than the keypoint sequence.
\<close>

theorem brief_descriptor_one_per_full_patch:
  assumes r: "rect (cells img) H W" and o: "odd patch_size" and p3: "3 \<le> patch_size"
    and al: "length orientations = length keypoints"
    and nn: "\<forall>p\<in>set keypoints. 0 \<le> fst p \<and> 0 \<le> snd p"
    and pat: "pattern_drawn (int (patch_size div 2)) n random_points"
  shows "\<exists>ds. brief_descriptor img keypoints orientations patch_size n random_points = Inr ds \<and>
           ds = map (\<lambda>(p, angle). keypoint_descriptor (cells img) patch_size random_points p angle)
                  (filter (\<lambda>(p, angle). patch_fits H W (int (patch_size div 2)) p)
                     (zip keypoints orientations)) \<and>
           length ds = length (filter (patch_fits H W (int (patch_size div 2))) keypoints) \<and>
           (\<forall>d\<in>set ds. length d = n)"
proof -
  have n: "length random_points = n" using pat by (simp add: pattern_drawn_def)
  let ?P = "patch_fits H W (int (patch_size div 2))"
  have "filter ?P keypoints = filter ?P (map fst (zip keypoints orientations))"
    using al by simp
  also have "\<dots> = map fst (filter (\<lambda>(p, angle). ?P p) (zip keypoints orientations))"
    by (simp add: filter_map o_def case_prod_unfold)
  finally have l: "length (filter ?P keypoints)
                   = length (filter (\<lambda>(p, angle). ?P p) (zip keypoints orientations))"
    by simp
  show ?thesis
    unfolding brief_descriptor_filter [OF r o p3 nn n]
    by (auto simp: l length_keypoint_descriptor n)
qed

theorem brief_descriptor_one_per_full_patch_witness:
  "\<exists>ds. brief_descriptor blob_right_image [(1, 1), (0, 0)] [pi, 0] 3 1 [(- 1, 0)] = Inr ds \<and>
     length ds = 1 \<and> (\<forall>d\<in>set ds. length d = 1)"
proof -
  have r: "rect (cells blob_right_image) 3 3"
    by (simp add: blob_right_image_def rect_def)
  have nn: "\<forall>p\<in>set ([(1, 1), (0, 0)] :: (int \<times> int) list). 0 \<le> fst p \<and> 0 \<le> snd p"
    by simp
  have pat: "pattern_drawn (int (3 div 2)) 1 [(- 1, 0)]"
    by (simp add: pattern_drawn_def)
  from brief_descriptor_one_per_full_patch [OF r _ _ _ nn pat, of "[pi, 0]"]
  obtain ds where
    "brief_descriptor blob_right_image [(1, 1), (0, 0)] [pi, 0] 3 1 [(- 1, 0)] = Inr ds"
    "length ds = length (filter (patch_fits 3 3 (int (3 div 2))) [(1, 1), (0, 0)])"
    "\<forall>d\<in>set ds. length d = 1"
    by auto
  then show ?thesis
    by (auto simp: patch_fits_def)
qed

text \<open>
  Claim C9. For a keypoint \<open>(x, y)\<close> with a full patch and the rotated pair \<open>(dx, dy)\<close> of
  the \<open>i\<close>-th pattern point, bit \<open>i\<close> of the descriptor is the bit of the specification:
  1 when both compared positions \<open>(center + dx, center + dy)\<close> and
  \<open>(center - dx, center - dy)\<close> lie inside the patch and the intensity at the first is
  strictly greater than at the second, 0 otherwise, in particular 0 when a position falls
  outside the patch. In terms of the image: the bit is 1 exactly when \<open>|dx|\<close> and \<open>|dy|\<close>
  are at most the radius and the image is strictly brighter at \<open>(x + dx, y + dy)\<close> than at
  \<open>(x - dx, y - dy)\<close>.
\<close>

theorem brief_descriptor_bit:
  assumes r: "rect (cells img) H W" and o: "odd patch_size" and p3: "3 \<le> patch_size"
    and f: "patch_fits H W (int (patch_size div 2)) (x, y)"
    and i: "i < length random_points"
    and d: "rotate_point angle (random_points ! i) = (dx, dy)"
  shows "\<exists>descriptor.
           brief_descriptor img [(x, y)] [angle] patch_size (length random_points) random_points
             = Inr [descriptor] \<and>
           length descriptor = length random_points \<and>
           descriptor ! i = spec_bit (patch_at (cells img) x y (int (patch_size div 2)))
                              (int (patch_size div 2)) patch_size (dx, dy) \<and>
           descriptor ! i =
             (if - int (patch_size div 2) \<le> dx \<and> dx \<le> int (patch_size div 2) \<and>
                 - int (patch_size div 2) \<le> dy \<and> dy \<le> int (patch_size div 2) \<and>
                 cells img ! nat (y + dy) ! nat (x + dx) > cells img ! nat (y - dy) ! nat (x - dx)
              then 1 else 0)"
proof -
  let ?r = "patch_size div 2"
  let ?patch = "patch_at (cells img) x y (int ?r)"
  let ?d = "keypoint_descriptor (cells img) patch_size random_points (x, y) angle"
  have ps: "patch_size = 2 * ?r + 1" using o by presburger
  have xy: "0 \<le> x" "0 \<le> y" using f by (simp_all add: patch_fits_def)
  then have nn: "\<forall>p\<in>set [(x, y)]. 0 \<le> fst p \<and> 0 \<le> snd p" by simp
  have b: "brief_descriptor img [(x, y)] [angle] patch_size (length random_points) random_points
           = Inr [?d]"
    unfolding brief_descriptor_filter [OF r o p3 nn refl] using f by simp
  have bit: "?d ! i = spec_bit ?patch (int ?r) patch_size (dx, dy)"
    using i d by (simp add: keypoint_descriptor_def Let_def descriptor_bit_spec)
  have img: "spec_bit ?patch (int ?r) patch_size (dx, dy) =
             (if - int ?r \<le> dx \<and> dx \<le> int ?r \<and> - int ?r \<le> dy \<and> dy \<le> int ?r \<and>
                 cells img ! nat (y + dy) ! nat (x + dx) > cells img ! nat (y - dy) ! nat (x - dx)
              then 1 else 0)"
  proof (cases "- int ?r \<le> dx \<and> dx \<le> int ?r \<and> - int ?r \<le> dy \<and> dy \<le> int ?r")
    case True
    then have a1: "nat (int ?r + dy) < 2 * ?r + 1" "nat (int ?r + dx) < 2 * ?r + 1"
      and a2: "nat (int ?r - dy) < 2 * ?r + 1" "nat (int ?r - dx) < 2 * ?r + 1"
      by linarith+
    have v1: "?patch ! nat (int ?r + dy) ! nat (int ?r + dx) = cells img ! nat (y + dy) ! nat (x + dx)"
      using patch_at_nth [OF r f a1] True by (simp add: algebra_simps)
    have v2: "?patch ! nat (int ?r - dy) ! nat (int ?r - dx) = cells img ! nat (y - dy) ! nat (x - dx)"
      using patch_at_nth [OF r f a2] True by (simp add: algebra_simps)
    have inb: "in_patch patch_size (int ?r + dx, int ?r + dy)" "in_patch patch_size (int ?r - dx, int ?r - dy)"
      using True ps by (auto simp: in_patch_def)
    show ?thesis
      using True by (simp add: spec_bit_def inb patch_value_def v1 v2)
  next
    case False
    then have "\<not> (in_patch patch_size (int ?r + dx, int ?r + dy) \<and> in_patch patch_size (int ?r - dx, int ?r - dy))"
      using ps by (auto simp: in_patch_def)
    then show ?thesis using False by (auto simp: spec_bit_def)
  qed
  show ?thesis
    by (rule exI [of _ ?d]) (simp add: b bit img [symmetric] length_keypoint_descriptor)
qed

theorem brief_descriptor_bit_witness:
  "\<exists>descriptor. brief_descriptor blob_right_image [(1, 1)] [pi] 3 1 [(- 1, 0)] = Inr [descriptor] \<and>
     descriptor ! 0 = 1"
proof -
  have r: "rect (cells blob_right_image) 3 3"
    by (simp add: blob_right_image_def rect_def)
  have f: "patch_fits 3 3 (int (3 div 2)) (1, 1)"
    by (simp add: patch_fits_def)
  have d: "rotate_point pi ([(- 1, 0)] ! 0) = (1, 0)"
    by (simp add: rotate_point_def round_half_even_def)
  from brief_descriptor_bit [OF r _ _ f _ d]
  obtain descriptor where
    b: "brief_descriptor blob_right_image [(1, 1)] [pi] 3 (length [(- 1, 0 :: int)] ) [(- 1, 0)] = Inr [descriptor]"
    and v: "descriptor ! 0 =
             (if - int (3 div 2) \<le> 1 \<and> 1 \<le> int (3 div 2) \<and>
                 - int (3 div 2) \<le> 0 \<and> 0 \<le> int (3 div 2) \<and>
                 cells blob_right_image ! nat (1 + 0) ! nat (1 + 1)
                   > cells blob_right_image ! nat (1 - 0) ! nat (1 - 1)
              then 1 else 0)"
    by auto
  from v have "descriptor ! 0 = 1"
    by (simp add: blob_right_image_def)
  with b show ?thesis by simp
qed

section \<open>Properties of the Harris filter\<close>















end
